theory Spec2Isabelle
  imports Main "HOL-Library.Word"
begin

section \<open>Data model\<close>

text \<open>
  The patch engine of the unlocker: \<open>MemoryEditor.cpp\<close> and \<open>PatternScanner.cpp\<close>,
  together with the one handler of \<open>MainWindow.cpp\<close> that guards individual toggles.
  Machine types: \<open>uintptr_t\<close> and \<open>HANDLE\<close> are 64-bit words (the null pointer
  is 0), \<open>DWORD\<close> is a 32-bit word, \<open>uint8_t\<close> an 8-bit word. Sizes and loop
  counters (\<open>size_t\<close>) are natural numbers; the theorems on the scanner state the bound
  under which the \<open>size_t\<close> arithmetic of the source does not wrap.
\<close>

type_synonym byte = "8 word"
type_synonym addr = "64 word"
type_synonym DWORD = "32 word"
type_synonym HANDLE = "64 word"

text \<open>
  \<open>Patches.h\<close> declares the three kinds of modification. Only the members that the
  engine reads or writes are kept; the field names carry a prefix where the three
  structs share a member name (\<open>name\<close>, \<open>enabled\<close>). \<open>offset\<close> is the value that
  \<open>address += patch.offset\<close> adds, as a 64-bit word.
\<close>

record Patch =
  pname :: string
  pattern :: "byte list"
  offset :: addr
  original :: "byte list"
  patched :: "byte list"
  penabled :: bool

record UnlockItem =
  iname :: string
  address :: addr
  ienabled :: bool
  selectable :: bool

record UnlockBundle =
  bname :: string
  addresses :: "addr list"
  benabled :: bool

text \<open>The Qt signals of \<open>MemoryEditor\<close>, recorded in emission order.\<close>

datatype signal =
    processAttached string DWORD
  | processDetached
  | patchApplied string
  | patchRemoved string
  | unlockEnabled string
  | unlockDisabled string
  | bundleEnabled string
  | bundleDisabled string
  | errorOccurred string

text \<open>
  One record holds the members of \<open>MemoryEditor\<close> and the part of the operating
  system that the engine talks to. \<open>scans\<close> counts the calls of
  \<open>PatternScanner::findPatternInModule\<close> made so far. The operating system side:
  \<^item> \<open>snapshot\<close>: the process list that the toolhelp snapshot enumerates (image name
    and process id), or \<open>None\<close> when the snapshot cannot be created;
  \<^item> \<open>open_process\<close>: the handle \<open>OpenProcess\<close> returns for a process id (0 when denied),
    \<open>last_error\<close> the text of \<open>GetLastError()\<close>;
  \<^item> \<open>exit_code\<close>: what \<open>GetExitCodeProcess\<close> reports for a handle (\<open>None\<close> when the
    call fails);
  \<^item> \<open>modules\<close>: the modules of the target as \<open>EnumProcessModulesEx\<close> lists them, each
    with the results of \<open>GetModuleBaseNameW\<close> and \<open>GetModuleInformation\<close>
    (base address and the 32-bit \<open>SizeOfImage\<close>);
  \<^item> \<open>mem\<close>: the bytes of the target's address space; \<open>readable\<close> the addresses that
    \<open>ReadProcessMemory\<close> can read; \<open>wfault\<close> the addresses at which
    \<open>WriteProcessMemory\<close> fails;
  \<^item> \<open>prot\<close>: the protection of each 4 KiB page, indexed by page number;
    \<open>committed\<close> the pages whose protection \<open>VirtualProtectEx\<close> can change.
  The engine is single-threaded and every call is synchronous: between two calls of the
  engine the target changes only through the engine's own writes.
\<close>

record world =
  m_processHandle :: HANDLE
  m_processId :: DWORD
  m_processName :: string
  m_lastError :: string
  m_patternCache :: "string \<rightharpoonup> addr"
  signals :: "signal list"
  scans :: nat
  snapshot :: "(string \<times> DWORD) list option"
  open_process :: "DWORD \<Rightarrow> HANDLE"
  last_error :: string
  exit_code :: "HANDLE \<Rightarrow> DWORD option"
  modules :: "(string option \<times> (addr \<times> DWORD) option) list option"
  mem :: "addr \<Rightarrow> byte"
  readable :: "addr \<Rightarrow> bool"
  wfault :: "addr \<Rightarrow> bool"
  prot :: "addr \<Rightarrow> DWORD"
  committed :: "addr \<Rightarrow> bool"

section \<open>Operating system calls\<close>

definition STILL_ACTIVE :: DWORD where
  "STILL_ACTIVE = 259"

definition PAGE_EXECUTE_READWRITE :: DWORD where
  "PAGE_EXECUTE_READWRITE = 0x40"

definition page :: "addr \<Rightarrow> addr" where
  "page a = drop_bit 12 a"

definition region :: "addr \<Rightarrow> nat \<Rightarrow> addr list" where
  "region a n = map (\<lambda>j. a + of_nat j) [0..<n]"

definition pages_of :: "addr \<Rightarrow> nat \<Rightarrow> addr list" where
  "pages_of a n = map page (region a n)"

text \<open>
  \<open>VirtualProtectEx\<close> sets the protection of every page that holds a byte of the
  region and reports the previous protection of the first page of the region. It fails,
  changing nothing, on a null handle, an empty region or a page that is not committed.
\<close>

definition VirtualProtectEx ::
  "HANDLE \<Rightarrow> addr \<Rightarrow> nat \<Rightarrow> DWORD \<Rightarrow> world \<Rightarrow> (DWORD \<times> world) option" where
  "VirtualProtectEx h a n newProtect w =
     (if h \<noteq> 0 \<and> n \<noteq> 0 \<and> list_all (committed w) (pages_of a n)
      then Some (prot w (page a),
                 w\<lparr>prot := (\<lambda>p. if p \<in> set (pages_of a n) then newProtect else prot w p)\<rparr>)
      else None)"

text \<open>
  \<open>WriteProcessMemory\<close> returns its success flag, the number of bytes written and the
  new state. A write that touches a faulting address fails and writes nothing.
\<close>

definition WriteProcessMemory ::
  "HANDLE \<Rightarrow> addr \<Rightarrow> byte list \<Rightarrow> world \<Rightarrow> bool \<times> nat \<times> world" where
  "WriteProcessMemory h a data w =
     (if h \<noteq> 0 \<and> \<not> list_ex (wfault w) (region a (length data))
      then (True, length data,
            w\<lparr>mem := (\<lambda>x. if unat (x - a) < length data then data ! unat (x - a)
                           else mem w x)\<rparr>)
      else (False, 0, w))"

text \<open>\<open>ReadProcessMemory\<close> returns the bytes read, or \<open>None\<close> when the call fails.\<close>

definition ReadProcessMemory :: "HANDLE \<Rightarrow> addr \<Rightarrow> nat \<Rightarrow> world \<Rightarrow> byte list option" where
  "ReadProcessMemory h a n w =
     (if h \<noteq> 0 \<and> list_all (readable w) (region a n)
      then Some (map (mem w) (region a n)) else None)"

text \<open>\<open>_wcsicmp(a, b) == 0\<close> on ASCII letters.\<close>

definition towlower :: "char \<Rightarrow> char" where
  "towlower c =
     (let n = (of_char c :: nat) in if 65 \<le> n \<and> n \<le> 90 then char_of (n + 32) else c)"

definition wcsicmp_eq :: "string \<Rightarrow> string \<Rightarrow> bool" where
  "wcsicmp_eq a b = (map towlower a = map towlower b)"

section \<open>PatternScanner\<close>

definition CHUNK_SIZE :: nat where
  "CHUNK_SIZE = 0x10000"

function matchPattern_loop :: "byte list \<Rightarrow> byte list \<Rightarrow> nat \<Rightarrow> nat \<Rightarrow> bool" where
  "matchPattern_loop data pat off i =
     (if i < length pat
      then (if data ! (off + i) \<noteq> pat ! i then False
            else matchPattern_loop data pat off (Suc i))
      else True)"
  by pat_completeness auto
termination
  by (relation "measure (\<lambda>(data, pat, off, i). length pat - i)") auto

definition matchPattern :: "byte list \<Rightarrow> nat \<Rightarrow> byte list \<Rightarrow> nat \<Rightarrow> bool" where
  "matchPattern data dataSize pat off =
     (if off + length pat > dataSize then False else matchPattern_loop data pat off 0)"

text \<open>The inner loop of \<open>findPattern\<close>: the first matching index of one chunk.\<close>

function findPattern_scan :: "byte list \<Rightarrow> nat \<Rightarrow> byte list \<Rightarrow> nat \<Rightarrow> nat option" where
  "findPattern_scan buffer bytesRead pat i =
     (if i + length pat \<le> bytesRead
      then (if matchPattern buffer bytesRead pat i then Some i
            else findPattern_scan buffer bytesRead pat (Suc i))
      else None)"
  by pat_completeness auto
termination
  by (relation "measure (\<lambda>(buffer, bytesRead, pat, i). Suc bytesRead - i)") auto

text \<open>
  The outer loop of \<open>findPattern\<close>, one chunk per iteration. The buffer of the model is
  the prefix of the source's buffer that the read filled (\<open>bytesRead\<close> bytes).
\<close>

function findPattern_chunks ::
  "HANDLE \<Rightarrow> addr \<Rightarrow> nat \<Rightarrow> byte list \<Rightarrow> world \<Rightarrow> nat \<Rightarrow> addr option" where
  "findPattern_chunks h startAddress searchSize pat w off =
     (if off < searchSize
      then (let bytesToRead = min (CHUNK_SIZE + length pat) (searchSize - off) in
            case ReadProcessMemory h (startAddress + of_nat off) bytesToRead w of
              None \<Rightarrow> findPattern_chunks h startAddress searchSize pat w (off + CHUNK_SIZE)
            | Some buffer \<Rightarrow>
                (case findPattern_scan buffer (length buffer) pat 0 of
                   Some i \<Rightarrow> Some (startAddress + of_nat off + of_nat i)
                 | None \<Rightarrow>
                     findPattern_chunks h startAddress searchSize pat w (off + CHUNK_SIZE)))
      else None)"
  by pat_completeness auto
termination
  by (relation "measure (\<lambda>(h, startAddress, searchSize, pat, w, off). searchSize - off)")
     (auto simp: CHUNK_SIZE_def)

declare matchPattern_loop.simps [simp del]
declare findPattern_scan.simps [simp del]
declare findPattern_chunks.simps [simp del]

definition findPattern ::
  "HANDLE \<Rightarrow> addr \<Rightarrow> nat \<Rightarrow> byte list \<Rightarrow> world \<Rightarrow> addr option" where
  "findPattern h startAddress searchSize pat w =
     (if h = 0 \<or> pat = [] then None
      else findPattern_chunks h startAddress searchSize pat w 0)"

fun getModuleInfo_loop ::
  "string \<Rightarrow> (string option \<times> (addr \<times> DWORD) option) list \<Rightarrow> (addr \<times> nat) option" where
  "getModuleInfo_loop moduleName [] = None"
| "getModuleInfo_loop moduleName ((baseName, modInfo) # rest) =
     (case baseName of
        None \<Rightarrow> getModuleInfo_loop moduleName rest
      | Some modName \<Rightarrow>
          if wcsicmp_eq modName moduleName
          then (case modInfo of
                  None \<Rightarrow> getModuleInfo_loop moduleName rest
                | Some (lpBaseOfDll, SizeOfImage) \<Rightarrow> Some (lpBaseOfDll, unat SizeOfImage))
          else getModuleInfo_loop moduleName rest)"

definition getModuleInfo :: "HANDLE \<Rightarrow> string \<Rightarrow> world \<Rightarrow> (addr \<times> nat) option" where
  "getModuleInfo h moduleName w =
     (case (if h = 0 then None else modules w) of
        None \<Rightarrow> None
      | Some ms \<Rightarrow> getModuleInfo_loop moduleName ms)"

definition findPatternInModule ::
  "HANDLE \<Rightarrow> string \<Rightarrow> byte list \<Rightarrow> world \<Rightarrow> addr option" where
  "findPatternInModule h moduleName pat w =
     (case getModuleInfo h moduleName w of
        None \<Rightarrow> None
      | Some (baseAddress, moduleSize) \<Rightarrow> findPattern h baseAddress moduleSize pat w)"

section \<open>MemoryEditor\<close>

definition emit :: "signal \<Rightarrow> world \<Rightarrow> world" where
  "emit e w = w\<lparr>signals := signals w @ [e]\<rparr>"

text \<open>The recurring pair \<open>m_lastError = msg; emit errorOccurred(msg)\<close>.\<close>

definition report_error :: "string \<Rightarrow> world \<Rightarrow> world" where
  "report_error msg w = emit (errorOccurred msg) (w\<lparr>m_lastError := msg\<rparr>)"

subsection \<open>Process attachment\<close>

definition detach :: "world \<Rightarrow> world" where
  "detach w =
     (if m_processHandle w \<noteq> 0
      then emit processDetached
             (w\<lparr>m_processHandle := 0, m_processId := 0, m_processName := [],
                m_patternCache := Map.empty\<rparr>)
      else w)"

fun findProcessByName_loop :: "string \<Rightarrow> (string \<times> DWORD) list \<Rightarrow> DWORD" where
  "findProcessByName_loop processName [] = 0"
| "findProcessByName_loop processName ((szExeFile, th32ProcessID) # rest) =
     (if wcsicmp_eq szExeFile processName then th32ProcessID
      else findProcessByName_loop processName rest)"

definition findProcessByName :: "string \<Rightarrow> world \<Rightarrow> DWORD \<times> world" where
  "findProcessByName processName w =
     (case snapshot w of
        None \<Rightarrow> (0, report_error ''Failed to create process snapshot'' w)
      | Some entries \<Rightarrow> (findProcessByName_loop processName entries, w))"

definition attachToProcess :: "string \<Rightarrow> world \<Rightarrow> bool \<times> world" where
  "attachToProcess processName w =
     (let w1 = (if m_processHandle w \<noteq> 0 then detach w else w);
          (pid, w2) = findProcessByName processName w1
      in if pid = 0
         then (False, w2\<lparr>m_lastError := ''Process not found: '' @ processName\<rparr>)
         else let w3 = w2\<lparr>m_processHandle := open_process w2 pid\<rparr>
              in if m_processHandle w3 = 0
                 then (False,
                       report_error
                         (''Failed to open process. Run as administrator? Error: ''
                            @ last_error w3) w3)
                 else (True,
                       emit (processAttached processName pid)
                         (w3\<lparr>m_processId := pid, m_processName := processName,
                             m_patternCache := Map.empty\<rparr>)))"

definition isAttached :: "world \<Rightarrow> bool" where
  "isAttached w =
     (if m_processHandle w = 0 then False
      else (case exit_code w (m_processHandle w) of
              Some exitCode \<Rightarrow> exitCode = STILL_ACTIVE
            | None \<Rightarrow> False))"

subsection \<open>Low-level memory operations\<close>

definition setMemoryProtection ::
  "addr \<Rightarrow> nat \<Rightarrow> DWORD \<Rightarrow> world \<Rightarrow> (DWORD \<times> world) option" where
  "setMemoryProtection a n newProtection w =
     VirtualProtectEx (m_processHandle w) a n newProtection w"

definition writeMemory :: "addr \<Rightarrow> byte list \<Rightarrow> world \<Rightarrow> bool \<times> world" where
  "writeMemory a data w =
     (let (ok, bytesWritten, w') = WriteProcessMemory (m_processHandle w) a data w
      in (ok \<and> bytesWritten = length data, w'))"

definition writeProtectedMemory :: "addr \<Rightarrow> byte list \<Rightarrow> world \<Rightarrow> bool \<times> world" where
  "writeProtectedMemory a data w =
     (case setMemoryProtection a (length data) PAGE_EXECUTE_READWRITE w of
        None \<Rightarrow> (False, w\<lparr>m_lastError := ''Failed to change memory protection''\<rparr>)
      | Some (oldProtection, w1) \<Rightarrow>
          (let (success, w2) = writeMemory a data w1;
               w3 = (case setMemoryProtection a (length data) oldProtection w2 of
                       None \<Rightarrow> w2
                     | Some (temp, w') \<Rightarrow> w')
           in (success, w3)))"

definition writeByte :: "addr \<Rightarrow> byte \<Rightarrow> world \<Rightarrow> bool \<times> world" where
  "writeByte a v w =
     (if \<not> isAttached w then (False, w)
      else (case setMemoryProtection a 1 PAGE_EXECUTE_READWRITE w of
              None \<Rightarrow> (False, w)
            | Some (oldProtection, w1) \<Rightarrow>
                (let (ok, bytesWritten, w2) = WriteProcessMemory (m_processHandle w1) a [v] w1;
                     success = (ok \<and> bytesWritten = 1);
                     w3 = (case setMemoryProtection a 1 oldProtection w2 of
                             None \<Rightarrow> w2
                           | Some (temp, w') \<Rightarrow> w')
                 in (success, w3))))"

definition readByte :: "addr \<Rightarrow> world \<Rightarrow> byte" where
  "readByte a w =
     (if \<not> isAttached w then 0
      else (case ReadProcessMemory (m_processHandle w) a 1 w of
              Some [v] \<Rightarrow> v
            | _ \<Rightarrow> 0))"

subsection \<open>Pattern patches\<close>

definition findPatternAddress :: "Patch \<Rightarrow> world \<Rightarrow> addr \<times> world" where
  "findPatternAddress patch w =
     (case m_patternCache w (pname patch) of
        Some a \<Rightarrow> (a, w)
      | None \<Rightarrow>
          (let w1 = w\<lparr>scans := Suc (scans w)\<rparr> in
           case findPatternInModule (m_processHandle w) ''ffxv_s.exe'' (pattern patch) w of
             Some a \<Rightarrow> (a, w1\<lparr>m_patternCache := (m_patternCache w1)(pname patch \<mapsto> a)\<rparr>)
           | None \<Rightarrow> (0, w1)))"

definition applyPatch :: "Patch \<Rightarrow> world \<Rightarrow> bool \<times> Patch \<times> world" where
  "applyPatch patch w =
     (if \<not> isAttached w
      then (False, patch, report_error ''Not attached to process'' w)
      else (let (a, w1) = findPatternAddress patch w in
            if a = 0
            then (False, patch, report_error (''Pattern not found: '' @ pname patch) w1)
            else (let (ok, w2) = writeProtectedMemory (a + offset patch) (patched patch) w1 in
                  if \<not> ok
                  then (False, patch,
                        report_error (''Failed to write patch: '' @ pname patch) w2)
                  else (True, patch\<lparr>penabled := True\<rparr>,
                        emit (patchApplied (pname patch)) w2))))"

definition removePatch :: "Patch \<Rightarrow> world \<Rightarrow> bool \<times> Patch \<times> world" where
  "removePatch patch w =
     (if \<not> isAttached w
      then (False, patch, report_error ''Not attached to process'' w)
      else (let (a, w1) = (case m_patternCache w (pname patch) of
                             Some cached \<Rightarrow> (cached, w)
                           | None \<Rightarrow> findPatternAddress patch w) in
            if a = 0
            then (False, patch,
                  report_error (''Cannot find patch location: '' @ pname patch) w1)
            else (let (ok, w2) = writeProtectedMemory (a + offset patch) (original patch) w1 in
                  if \<not> ok
                  then (False, patch,
                        report_error (''Failed to restore original bytes: '' @ pname patch) w2)
                  else (True, patch\<lparr>penabled := False\<rparr>,
                        emit (patchRemoved (pname patch)) w2))))"

definition togglePatch :: "Patch \<Rightarrow> world \<Rightarrow> bool \<times> Patch \<times> world" where
  "togglePatch patch w = (if penabled patch then removePatch patch w else applyPatch patch w)"

text \<open>
  The bulk operations take a vector of pointers and update the objects in place; the
  model takes the objects in vector order and returns them updated, in the same order,
  next to the \<open>allSuccess\<close> flag. The pointers of one vector are taken to point to
  different objects, as they do in every caller. The accumulator is the flag of the
  source's loop.
\<close>

fun applyAllPatches_loop ::
  "Patch list \<Rightarrow> bool \<Rightarrow> world \<Rightarrow> bool \<times> Patch list \<times> world" where
  "applyAllPatches_loop [] allSuccess w = (allSuccess, [], w)"
| "applyAllPatches_loop (patch # rest) allSuccess w =
     (if \<not> penabled patch
      then (let (ok, patch', w1) = applyPatch patch w;
                (r, rest', w2) = applyAllPatches_loop rest (if \<not> ok then False else allSuccess) w1
            in (r, patch' # rest', w2))
      else (let (r, rest', w2) = applyAllPatches_loop rest allSuccess w
            in (r, patch # rest', w2)))"

definition applyAllPatches :: "Patch list \<Rightarrow> world \<Rightarrow> bool \<times> Patch list \<times> world" where
  "applyAllPatches patches w = applyAllPatches_loop patches True w"



subsection \<open>Byte-table unlocks\<close>

definition enableUnlock :: "UnlockItem \<Rightarrow> world \<Rightarrow> bool \<times> UnlockItem \<times> world" where
  "enableUnlock item w =
     (if \<not> isAttached w
      then (False, item, report_error ''Not attached to process'' w)
      else (let (ok, w1) = writeByte (address item) 0x01 w in
            if \<not> ok
            then (False, item, report_error (''Failed to enable unlock: '' @ iname item) w1)
            else (True, item\<lparr>ienabled := True\<rparr>, emit (unlockEnabled (iname item)) w1)))"

definition disableUnlock :: "UnlockItem \<Rightarrow> world \<Rightarrow> bool \<times> UnlockItem \<times> world" where
  "disableUnlock item w =
     (if \<not> isAttached w
      then (False, item, report_error ''Not attached to process'' w)
      else (let (ok, w1) = writeByte (address item) 0x00 w in
            if \<not> ok
            then (False, item, report_error (''Failed to disable unlock: '' @ iname item) w1)
            else (True, item\<lparr>ienabled := False\<rparr>, emit (unlockDisabled (iname item)) w1)))"

definition toggleUnlock :: "UnlockItem \<Rightarrow> world \<Rightarrow> bool \<times> UnlockItem \<times> world" where
  "toggleUnlock item w = (if ienabled item then disableUnlock item w else enableUnlock item w)"





subsection \<open>Bundles\<close>

text \<open>The loop over \<open>bundle.addresses\<close>, for either value written.\<close>

fun writeBundle_loop :: "byte \<Rightarrow> addr list \<Rightarrow> bool \<Rightarrow> world \<Rightarrow> bool \<times> world" where
  "writeBundle_loop v [] allSuccess w = (allSuccess, w)"
| "writeBundle_loop v (a # rest) allSuccess w =
     (let (ok, w1) = writeByte a v w
      in writeBundle_loop v rest (if \<not> ok then False else allSuccess) w1)"

definition enableBundle :: "UnlockBundle \<Rightarrow> world \<Rightarrow> bool \<times> UnlockBundle \<times> world" where
  "enableBundle bundle w =
     (if \<not> isAttached w
      then (False, bundle, report_error ''Not attached to process'' w)
      else (let (allSuccess, w1) = writeBundle_loop 0x01 (addresses bundle) True w in
            if allSuccess
            then (True, bundle\<lparr>benabled := True\<rparr>, emit (bundleEnabled (bname bundle)) w1)
            else (False, bundle,
                  report_error (''Failed to enable bundle (partial): '' @ bname bundle) w1)))"

definition disableBundle :: "UnlockBundle \<Rightarrow> world \<Rightarrow> bool \<times> UnlockBundle \<times> world" where
  "disableBundle bundle w =
     (if \<not> isAttached w
      then (False, bundle, report_error ''Not attached to process'' w)
      else (let (allSuccess, w1) = writeBundle_loop 0x00 (addresses bundle) True w in
            if allSuccess
            then (True, bundle\<lparr>benabled := False\<rparr>, emit (bundleDisabled (bname bundle)) w1)
            else (False, bundle,
                  report_error (''Failed to disable bundle (partial): '' @ bname bundle) w1)))"

definition toggleBundle :: "UnlockBundle \<Rightarrow> world \<Rightarrow> bool \<times> UnlockBundle \<times> world" where
  "toggleBundle bundle w =
     (if benabled bundle then disableBundle bundle w else enableBundle bundle w)"





section \<open>MainWindow: the individual unlock checkbox\<close>


section \<open>Notions used in the statements\<close>

text \<open>
  The protection map after a region has been switched to a new protection and back to
  the value that the first switch reported: every page of the region carries the
  former protection of the region's first page.
\<close>

definition restored :: "addr \<Rightarrow> nat \<Rightarrow> world \<Rightarrow> addr \<Rightarrow> DWORD" where
  "restored a n w = (\<lambda>p. if p \<in> set (pages_of a n) then prot w (page a) else prot w p)"

text \<open>
  The signature occurs at offset \<open>k\<close> of the range of \<open>searchSize\<close> bytes that
  starts at \<open>startAddress\<close>.
\<close>

definition occurs_at :: "world \<Rightarrow> addr \<Rightarrow> nat \<Rightarrow> byte list \<Rightarrow> nat \<Rightarrow> bool" where
  "occurs_at w startAddress searchSize pat k =
     (k + length pat \<le> searchSize \<and>
      list_all (\<lambda>i. mem w (startAddress + of_nat (k + i)) = pat ! i) [0..<length pat])"

subsection \<open>Bulk operations\<close>

text \<open>
  The six bulk loops of \<open>MemoryEditor\<close> have one shape: \<open>pending\<close> tells
  whether an item is not yet in the target state, \<open>op\<close> is the single operation.
\<close>

fun bulk_loop ::
  "('a \<Rightarrow> bool) \<Rightarrow> ('a \<Rightarrow> world \<Rightarrow> bool \<times> 'a \<times> world) \<Rightarrow> 'a list \<Rightarrow> bool \<Rightarrow> world
     \<Rightarrow> bool \<times> 'a list \<times> world" where
  "bulk_loop pending op [] allSuccess w = (allSuccess, [], w)"
| "bulk_loop pending op (x # rest) allSuccess w =
     (if pending x
      then (let (ok, x', w1) = op x w;
                (r, rest', w2) = bulk_loop pending op rest (if \<not> ok then False else allSuccess) w1
            in (r, x' # rest', w2))
      else (let (r, rest', w2) = bulk_loop pending op rest allSuccess w
            in (r, x # rest', w2)))"

definition bulk ::
  "('a \<Rightarrow> bool) \<Rightarrow> ('a \<Rightarrow> world \<Rightarrow> bool \<times> 'a \<times> world) \<Rightarrow> 'a list \<Rightarrow> world
     \<Rightarrow> bool \<times> 'a list \<times> world" where
  "bulk pending op xs w = bulk_loop pending op xs True w"

definition is_error :: "signal \<Rightarrow> bool" where
  "is_error e = (case e of errorOccurred msg \<Rightarrow> True | _ \<Rightarrow> False)"


subsection \<open>A small target process\<close>

text \<open>
  An attached session on a target whose main module is eight bytes long and holds the
  signature \<open>74 4F\<close> at offset 3; every page is committed and execute-read.
\<close>

definition demo_world :: world where
  "demo_world =
     \<lparr>m_processHandle = 0x1A4, m_processId = 4242, m_processName = ''ffxv_s.exe'',
      m_lastError = [], m_patternCache = Map.empty, signals = [], scans = 0,
      snapshot = Some [(''explorer.exe'', 1000), (''ffxv_s.exe'', 4242)],
      open_process = (\<lambda>pid. if pid = 4242 then 0x1A8 else 0), last_error = ''5'',
      exit_code = (\<lambda>h. if h = 0x1A4 \<or> h = 0x1A8 then Some 259 else None),
      modules = Some [(Some ''ntdll.dll'', Some (0x7FF000000000, 0x1000)),
                      (Some ''ffxv_s.exe'', Some (0x140000000, 8))],
      mem = (\<lambda>_. 0)(0x140000003 := 0x74, 0x140000004 := 0x4F),
      readable = (\<lambda>a. True), wfault = (\<lambda>a. False),
      prot = (\<lambda>p. 0x20), committed = (\<lambda>p. True)\<rparr>"

definition demo_patch :: Patch where
  "demo_patch =
     \<lparr>pname = ''Unlock 1'', pattern = [0x74, 0x4F], offset = 0,
      original = [0x74, 0x4F], patched = [0x90, 0x90], penabled = False\<rparr>"


text \<open>
  A range of two chunks whose only occurrence of the signature lies across the first
  chunk boundary, at offsets \<open>0xFFFF\<close> and \<open>0x10000\<close>.
\<close>

definition chunk_world :: world where
  "chunk_world = demo_world\<lparr>mem := (\<lambda>_. 0)(0x14000FFFF := 0x74, 0x140010000 := 0x4F)\<rparr>"


text \<open>A patch whose signature does not occur in the module.\<close>

definition absent_patch :: Patch where
  "absent_patch =
     \<lparr>pname = ''Unlock 0'', pattern = [0xAA, 0xBB], offset = 0,
      original = [0xAA, 0xBB], patched = [0x90, 0x90], penabled = False\<rparr>"

text \<open>
  A bundle of three flag addresses, three unlock items, and the target with a write
  fault injected at \<open>0x140752041\<close>.
\<close>

definition demo_bundle :: UnlockBundle where
  "demo_bundle =
     \<lparr>bname = ''Twitch pack'', addresses = [0x140752040, 0x140752041, 0x140752042],
      benabled = False\<rparr>"




definition bundle_world :: world where
  "bundle_world = demo_world\<lparr>wfault := (\<lambda>a. a = 0x140752041)\<rparr>"



section \<open>Auxiliary facts\<close>

subsection \<open>Protected writes\<close>

lemma isAttached_handle: "isAttached w \<Longrightarrow> m_processHandle w \<noteq> 0"
  by (auto simp: isAttached_def split: if_splits)

lemma writeProtectedMemory_eq:
  "writeProtectedMemory a data w =
     (if m_processHandle w \<noteq> 0 \<and> data \<noteq> [] \<and> list_all (committed w) (pages_of a (length data))
      then (if \<not> list_ex (wfault w) (region a (length data))
            then (True, w\<lparr>mem := (\<lambda>x. if unat (x - a) < length data then data ! unat (x - a)
                           else mem w x), prot := restored a (length data) w\<rparr>)
            else (False, w\<lparr>prot := restored a (length data) w\<rparr>))
      else (False, w\<lparr>m_lastError := ''Failed to change memory protection''\<rparr>))"
  by (auto simp: writeProtectedMemory_def setMemoryProtection_def VirtualProtectEx_def
      writeMemory_def WriteProcessMemory_def restored_def fun_eq_iff)

lemma if_same_app: "(if p = c then f c else f p) = f p"
  by simp

lemma one_byte_update:
  "(\<lambda>x. if unat (x - a) = 0 then v else m x) = m(a := v)"
  by (auto simp: fun_eq_iff unat_eq_0)

lemma writeByte_eq:
  "writeByte a v w =
     (if isAttached w \<and> committed w (page a) \<and> \<not> wfault w a
      then (True, w\<lparr>mem := (mem w)(a := v)\<rparr>)
      else (False, w))"
  by (auto simp: writeByte_def setMemoryProtection_def VirtualProtectEx_def
      WriteProcessMemory_def pages_of_def region_def isAttached_handle
      if_same_app one_byte_update cong: if_cong)



lemma isAttached_frame:
  "m_processHandle w' = m_processHandle w \<Longrightarrow> exit_code w' = exit_code w \<Longrightarrow>
   isAttached w' = isAttached w"
  by (simp add: isAttached_def)

lemma writeProtectedMemory_success:
  assumes "writeProtectedMemory a data w = (True, w')"
  shows "m_processHandle w \<noteq> 0" "data \<noteq> []"
    "list_all (committed w) (pages_of a (length data))"
    "\<not> list_ex (wfault w) (region a (length data))"
    "w' = w\<lparr>mem := (\<lambda>x. if unat (x - a) < length data then data ! unat (x - a)
                           else mem w x), prot := restored a (length data) w\<rparr>"
  using assms by (auto simp: writeProtectedMemory_eq split: if_splits)


lemma findPatternAddress_frame:
  assumes "findPatternAddress p w = (a, w1)"
  shows "mem w1 = mem w" "prot w1 = prot w" "signals w1 = signals w"
    "m_processHandle w1 = m_processHandle w" "exit_code w1 = exit_code w"
    "wfault w1 = wfault w" "committed w1 = committed w" "m_lastError w1 = m_lastError w"
  using assms by (auto simp: findPatternAddress_def Let_def split: option.splits)

lemma findPatternAddress_cached:
  assumes "findPatternAddress p w = (a, w1)" "a \<noteq> 0"
  shows "m_patternCache w1 (pname p) = Some a"
  using assms by (auto simp: findPatternAddress_def Let_def split: option.splits)


lemma report_error_simps [simp]:
  "signals (report_error msg w) = signals w @ [errorOccurred msg]"
  "m_lastError (report_error msg w) = msg"
  "mem (report_error msg w) = mem w"
  "prot (report_error msg w) = prot w"
  "m_patternCache (report_error msg w) = m_patternCache w"
  "m_processHandle (report_error msg w) = m_processHandle w"
  "exit_code (report_error msg w) = exit_code w"
  "wfault (report_error msg w) = wfault w"
  "committed (report_error msg w) = committed w"
  "scans (report_error msg w) = scans w"
  by (simp_all add: report_error_def emit_def)

lemma emit_simps [simp]:
  "signals (emit e w) = signals w @ [e]"
  "m_lastError (emit e w) = m_lastError w"
  "mem (emit e w) = mem w"
  "prot (emit e w) = prot w"
  "m_patternCache (emit e w) = m_patternCache w"
  "m_processHandle (emit e w) = m_processHandle w"
  "exit_code (emit e w) = exit_code w"
  "wfault (emit e w) = wfault w"
  "committed (emit e w) = committed w"
  "scans (emit e w) = scans w"
  by (simp_all add: emit_def)

lemma applyPatch_cases [consumes 0, case_names not_attached not_found write_failed applied]:
  obtains
    "\<not> isAttached w"
    "applyPatch p w = (False, p, report_error ''Not attached to process'' w)"
  | w1 where "isAttached w" "findPatternAddress p w = (0, w1)"
    "applyPatch p w = (False, p, report_error (''Pattern not found: '' @ pname p) w1)"
  | a w1 w2 where "isAttached w" "findPatternAddress p w = (a, w1)" "a \<noteq> 0"
    "writeProtectedMemory (a + offset p) (patched p) w1 = (False, w2)"
    "applyPatch p w = (False, p, report_error (''Failed to write patch: '' @ pname p) w2)"
  | a w1 w2 where "isAttached w" "findPatternAddress p w = (a, w1)" "a \<noteq> 0"
    "writeProtectedMemory (a + offset p) (patched p) w1 = (True, w2)"
    "applyPatch p w = (True, p\<lparr>penabled := True\<rparr>, emit (patchApplied (pname p)) w2)"
proof (cases "isAttached w")
  case False
  then show ?thesis using that(1) by (simp add: applyPatch_def)
next
  case att: True
  obtain a w1 where f: "findPatternAddress p w = (a, w1)" by (cases "findPatternAddress p w")
  show ?thesis
  proof (cases "a = 0")
    case True
    then show ?thesis using that(2) att f by (simp add: applyPatch_def)
  next
    case nz: False
    obtain ok w2 where wr: "writeProtectedMemory (a + offset p) (patched p) w1 = (ok, w2)"
      by (cases "writeProtectedMemory (a + offset p) (patched p) w1")
    show ?thesis
    proof (cases ok)
      case True
      then show ?thesis using that(4) [OF att f nz] wr att f nz by (simp add: applyPatch_def)
    next
      case False
      then show ?thesis using that(3) [OF att f nz] wr att f nz by (simp add: applyPatch_def)
    qed
  qed
qed




subsection \<open>Attachment\<close>

lemma detach_attached:
  "m_processHandle w \<noteq> 0 \<Longrightarrow>
   detach w = emit processDetached
     (w\<lparr>m_processHandle := 0, m_processId := 0, m_processName := [],
        m_patternCache := Map.empty\<rparr>)"
  by (simp add: detach_def)

lemma findProcessByName_frame:
  assumes "findProcessByName nm w = (pid, w')"
  shows "m_processHandle w' = m_processHandle w" "m_patternCache w' = m_patternCache w"
    "\<exists>evs. signals w' = signals w @ evs" "scans w' = scans w"
  using assms by (auto simp: findProcessByName_def split: option.splits)

subsection \<open>Written bytes\<close>

lemma written_bytes:
  assumes "j < length data" "length data < 2 ^ 64"
  shows "(\<lambda>x. if unat (x - a) < length data then data ! unat (x - a) else m x)
           ((a::addr) + of_nat j) = data ! j"
proof -
  have "unat ((a + of_nat j) - a) = j"
    using assms by (simp add: unat_of_nat)
  then show ?thesis using assms by simp
qed

subsection \<open>The scanner\<close>

lemma from_Suc:
  assumes "P i" "\<forall>j. Suc i \<le> j \<and> G j \<longrightarrow> P j" "i \<le> j" "G j"
  shows "P (j::nat)"
proof (cases "j = i")
  case True
  then show ?thesis using assms(1) by simp
next
  case False
  with assms(3) have "Suc i \<le> j" by arith
  with assms(2,4) show ?thesis by blast
qed

lemma matchPattern_loop_iff:
  "matchPattern_loop data pat off i \<longleftrightarrow>
     (\<forall>j. i \<le> j \<and> j < length pat \<longrightarrow> data ! (off + j) = pat ! j)"
proof (induction data pat off i rule: matchPattern_loop.induct)
  case (1 data pat off i)
  show ?case
  proof (cases "i < length pat")
    case False
    have "matchPattern_loop data pat off i"
      using False by (subst matchPattern_loop.simps) simp
    moreover have "\<forall>j. i \<le> j \<and> j < length pat \<longrightarrow> data ! (off + j) = pat ! j"
      using False by auto
    ultimately show ?thesis by blast
  next
    case True
    show ?thesis
    proof (cases "data ! (off + i) = pat ! i")
      case False
      have "\<not> matchPattern_loop data pat off i"
        using True False by (subst matchPattern_loop.simps) simp
      moreover have "\<not> (\<forall>j. i \<le> j \<and> j < length pat \<longrightarrow> data ! (off + j) = pat ! j)"
        using True False by blast
      ultimately show ?thesis by blast
    next
      case eq: True
      have step: "matchPattern_loop data pat off i = matchPattern_loop data pat off (Suc i)"
        using True eq by (subst matchPattern_loop.simps) simp
      have ih: "matchPattern_loop data pat off (Suc i) \<longleftrightarrow>
          (\<forall>j. Suc i \<le> j \<and> j < length pat \<longrightarrow> data ! (off + j) = pat ! j)"
        using "1.IH" True eq by blast
      show ?thesis
      proof
        assume "matchPattern_loop data pat off i"
        then have a: "\<forall>j. Suc i \<le> j \<and> j < length pat \<longrightarrow> data ! (off + j) = pat ! j"
          using step ih by blast
        show "\<forall>j. i \<le> j \<and> j < length pat \<longrightarrow> data ! (off + j) = pat ! j"
        proof (intro allI impI)
          fix j assume "i \<le> j \<and> j < length pat"
          then show "data ! (off + j) = pat ! j"
            using from_Suc [where P = "\<lambda>j. data ! (off + j) = pat ! j"
                and G = "\<lambda>j. j < length pat", OF eq a] by blast
        qed
      next
        assume a: "\<forall>j. i \<le> j \<and> j < length pat \<longrightarrow> data ! (off + j) = pat ! j"
        have "\<forall>j. Suc i \<le> j \<and> j < length pat \<longrightarrow> data ! (off + j) = pat ! j"
        proof (intro allI impI)
          fix j assume "Suc i \<le> j \<and> j < length pat"
          then have "i \<le> j \<and> j < length pat" by arith
          then show "data ! (off + j) = pat ! j" using a by blast
        qed
        then show "matchPattern_loop data pat off i" using step ih by blast
      qed
    qed
  qed
qed

lemma matchPattern_iff:
  "matchPattern data dataSize pat off \<longleftrightarrow>
     off + length pat \<le> dataSize \<and> (\<forall>j<length pat. data ! (off + j) = pat ! j)"
  unfolding matchPattern_def matchPattern_loop_iff by auto

lemma findPattern_scan_Some:
  "findPattern_scan buffer n pat i = Some k \<Longrightarrow>
     i \<le> k \<and> k + length pat \<le> n \<and> matchPattern buffer n pat k \<and>
     (\<forall>k'. i \<le> k' \<and> k' < k \<longrightarrow> \<not> matchPattern buffer n pat k')"
proof (induction buffer n pat i rule: findPattern_scan.induct)
  case (1 buffer n pat i)
  show ?case
  proof (cases "i + length pat \<le> n")
    case False
    have "findPattern_scan buffer n pat i = None"
      using False by (subst findPattern_scan.simps) simp
    then show ?thesis using "1.prems" by simp
  next
    case True
    show ?thesis
    proof (cases "matchPattern buffer n pat i")
      case m: True
      have "findPattern_scan buffer n pat i = Some i"
        using True m by (subst findPattern_scan.simps) simp
      then have "k = i" using "1.prems" by simp
      moreover have "\<forall>k'. i \<le> k' \<and> k' < i \<longrightarrow> \<not> matchPattern buffer n pat k'" by auto
      ultimately show ?thesis using m True by blast
    next
      case m: False
      have "findPattern_scan buffer n pat i = findPattern_scan buffer n pat (Suc i)"
        using True m by (subst findPattern_scan.simps) simp
      then have "findPattern_scan buffer n pat (Suc i) = Some k"
        using "1.prems" by simp
      from "1.IH" [OF True m this]
      have ih: "Suc i \<le> k" "k + length pat \<le> n" "matchPattern buffer n pat k"
        "\<forall>k'. Suc i \<le> k' \<and> k' < k \<longrightarrow> \<not> matchPattern buffer n pat k'"
        by blast+
      have "\<forall>k'. i \<le> k' \<and> k' < k \<longrightarrow> \<not> matchPattern buffer n pat k'"
      proof (intro allI impI)
        fix k' assume "i \<le> k' \<and> k' < k"
        then show "\<not> matchPattern buffer n pat k'"
          using from_Suc [where P = "\<lambda>k'. \<not> matchPattern buffer n pat k'"
              and G = "\<lambda>k'. k' < k", OF m ih(4)] by blast
      qed
      moreover have "i \<le> k" using ih(1) by arith
      ultimately show ?thesis using ih(2,3) by blast
    qed
  qed
qed

lemma findPattern_scan_None:
  "findPattern_scan buffer n pat i = None \<Longrightarrow>
     (\<forall>k. i \<le> k \<and> k + length pat \<le> n \<longrightarrow> \<not> matchPattern buffer n pat k)"
proof (induction buffer n pat i rule: findPattern_scan.induct)
  case (1 buffer n pat i)
  show ?case
  proof (cases "i + length pat \<le> n")
    case False
    show ?thesis
    proof (intro allI impI)
      fix k assume "i \<le> k \<and> k + length pat \<le> n"
      with False have False by arith
      then show "\<not> matchPattern buffer n pat k" ..
    qed
  next
    case True
    have m: "\<not> matchPattern buffer n pat i"
    proof
      assume "matchPattern buffer n pat i"
      then have "findPattern_scan buffer n pat i = Some i"
        using True by (subst findPattern_scan.simps) simp
      then show False using "1.prems" by simp
    qed
    have "findPattern_scan buffer n pat i = findPattern_scan buffer n pat (Suc i)"
      using True m by (subst findPattern_scan.simps) simp
    then have "findPattern_scan buffer n pat (Suc i) = None"
      using "1.prems" by simp
    from "1.IH" [OF True m this]
    have ih: "\<forall>k. Suc i \<le> k \<and> k + length pat \<le> n \<longrightarrow> \<not> matchPattern buffer n pat k" .
    show ?thesis
    proof (intro allI impI)
      fix k assume "i \<le> k \<and> k + length pat \<le> n"
      then show "\<not> matchPattern buffer n pat k"
        using from_Suc [where P = "\<lambda>k. \<not> matchPattern buffer n pat k"
            and G = "\<lambda>k. k + length pat \<le> n", OF m ih] by blast
    qed
  qed
qed


lemma occurs_at_iff:
  "occurs_at w startAddress searchSize pat k \<longleftrightarrow>
     k + length pat \<le> searchSize \<and>
     (\<forall>i<length pat. mem w (startAddress + of_nat (k + i)) = pat ! i)"
  by (auto simp: occurs_at_def list_all_iff)

lemma ReadProcessMemory_readable:
  assumes "h \<noteq> 0" "\<forall>j < searchSize. readable w (startAddress + of_nat j)"
    "off + n \<le> searchSize"
  shows "ReadProcessMemory h (startAddress + of_nat off) n w =
           Some (map (\<lambda>j. mem w (startAddress + of_nat (off + j))) [0..<n])"
proof -
  have "readable w (startAddress + of_nat off + of_nat j)" if "j < n" for j
  proof -
    have "off + j < searchSize" using that assms(3) by arith
    then have "readable w (startAddress + of_nat (off + j))" using assms(2) by blast
    then show ?thesis by (simp add: add.assoc)
  qed
  then show ?thesis
    using assms(1) by (simp add: ReadProcessMemory_def region_def list_all_iff add.assoc)
qed

lemma chunk_match:
  assumes "off + n \<le> searchSize" "k + length pat \<le> n"
  shows "matchPattern (map (\<lambda>j. mem w (startAddress + of_nat (off + j))) [0..<n]) n pat k
           \<longleftrightarrow> occurs_at w startAddress searchSize pat (off + k)"
proof -
  have "(map (\<lambda>j. mem w (startAddress + of_nat (off + j))) [0..<n]) ! (k + j)
          = mem w (startAddress + of_nat (off + k + j))" if "j < length pat" for j
  proof -
    have "k + j < n" using that assms(2) by arith
    then show ?thesis by (simp add: add.assoc)
  qed
  moreover have "off + k + length pat \<le> searchSize" using assms by arith
  ultimately show ?thesis
    using assms(2) by (simp add: matchPattern_iff occurs_at_iff)
qed

lemma findPattern_chunks_least:
  assumes "h \<noteq> 0" "pat \<noteq> []" "\<forall>j < searchSize. readable w (startAddress + of_nat j)"
    "\<forall>k < off. \<not> occurs_at w startAddress searchSize pat k"
  shows "findPattern_chunks h startAddress searchSize pat w off =
           (if \<exists>k. occurs_at w startAddress searchSize pat k
            then Some (startAddress + of_nat (LEAST k. occurs_at w startAddress searchSize pat k))
            else None)"
  using assms
proof (induction h startAddress searchSize pat w off rule: findPattern_chunks.induct)
  case (1 h startAddress searchSize pat w off)
  let ?occ = "occurs_at w startAddress searchSize pat"
  have plen: "0 < length pat" using "1.prems"(2) by simp
  show ?case
  proof (cases "off < searchSize")
    case False
    have "\<not> ?occ k" for k
    proof
      assume o: "?occ k"
      then have "k + length pat \<le> searchSize" by (simp add: occurs_at_iff)
      then have "k < off" using plen False by arith
      then show False using "1.prems"(4) o by blast
    qed
    moreover have "findPattern_chunks h startAddress searchSize pat w off = None"
      using False by (subst findPattern_chunks.simps) simp
    ultimately show ?thesis by simp
  next
    case True
    define n where "n = min (CHUNK_SIZE + length pat) (searchSize - off)"
    define buffer where "buffer = map (\<lambda>j. mem w (startAddress + of_nat (off + j))) [0..<n]"
    have bound: "off + n \<le> searchSize" using True by (simp add: n_def)
    have rd: "ReadProcessMemory h (startAddress + of_nat off) n w = Some buffer"
      unfolding buffer_def
      by (rule ReadProcessMemory_readable [OF "1.prems"(1) "1.prems"(3) bound])
    have len: "length buffer = n" by (simp add: buffer_def)
    have fits: "k + length pat \<le> n" if "k \<le> CHUNK_SIZE" "?occ (off + k)" for k
    proof -
      have "off + k + length pat \<le> searchSize" using that(2) by (simp add: occurs_at_iff)
      then show ?thesis using that(1) by (simp add: n_def)
    qed
    show ?thesis
    proof (cases "findPattern_scan buffer n pat 0")
      case None
      have unfold: "findPattern_chunks h startAddress searchSize pat w off =
                      findPattern_chunks h startAddress searchSize pat w (off + CHUNK_SIZE)"
        using True rd None len
        by (subst findPattern_chunks.simps) (simp add: n_def [symmetric])
      have nomatch: "\<forall>k. 0 \<le> k \<and> k + length pat \<le> n \<longrightarrow> \<not> matchPattern buffer n pat k"
        by (rule findPattern_scan_None [OF None])
      have "\<forall>k < off + CHUNK_SIZE. \<not> ?occ k"
      proof (intro allI impI)
        fix k assume k: "k < off + CHUNK_SIZE"
        show "\<not> ?occ k"
        proof (cases "k < off")
          case True
          then show ?thesis using "1.prems"(4) by blast
        next
          case False
          define d where "d = k - off"
          have kd: "k = off + d" and dC: "d \<le> CHUNK_SIZE" using False k by (simp_all add: d_def)
          show ?thesis
          proof
            assume o: "?occ k"
            then have f: "d + length pat \<le> n" using fits [OF dC] kd by simp
            then have "matchPattern buffer n pat d"
              using chunk_match [OF bound f, of w startAddress] o kd by (simp add: buffer_def)
            then show False using nomatch f by blast
          qed
        qed
      qed
      then have nxt: "\<forall>k < off + CHUNK_SIZE. \<not> ?occ k" .
      have sc: "findPattern_scan buffer (length buffer) pat 0 = None"
        using None len by simp
      from "1.IH"(2) [OF True n_def rd sc "1.prems"(1) "1.prems"(2) "1.prems"(3) nxt]
      show ?thesis using unfold by simp
    next
      case (Some i)
      have unfold: "findPattern_chunks h startAddress searchSize pat w off =
                      Some (startAddress + of_nat off + of_nat i)"
        using True rd Some len
        by (subst findPattern_chunks.simps) (simp add: n_def [symmetric])
      from findPattern_scan_Some [OF Some]
      have i: "i + length pat \<le> n" "matchPattern buffer n pat i"
        "\<forall>k'. 0 \<le> k' \<and> k' < i \<longrightarrow> \<not> matchPattern buffer n pat k'"
        by blast+
      have occ_i: "?occ (off + i)"
        using chunk_match [OF bound i(1), of w startAddress] i(2) by (simp add: buffer_def)
      have least: "off + i \<le> y" if o: "?occ y" for y
      proof (rule ccontr)
        assume "\<not> off + i \<le> y"
        then have y: "y < off + i" by arith
        show False
        proof (cases "y < off")
          case True
          then show ?thesis using "1.prems"(4) o by blast
        next
          case False
          define d where "d = y - off"
          have yd: "y = off + d" and di: "d < i" using False y by (simp_all add: d_def)
          have f: "d + length pat \<le> n" using di i(1) by arith
          have "matchPattern buffer n pat d"
            using chunk_match [OF bound f, of w startAddress] o yd by (simp add: buffer_def)
          then show False using i(3) di by blast
        qed
      qed
      have "(LEAST k. ?occ k) = off + i"
      proof (rule Least_equality)
        show "?occ (off + i)" by (rule occ_i)
        show "off + i \<le> y" if "?occ y" for y using that by (rule least)
      qed
      then show ?thesis using unfold occ_i by (auto simp: add.assoc)
    qed
  qed
qed


subsection \<open>The bulk loop\<close>

lemma bulk_loop_False:
  "bulk_loop pending op xs False w = (False, snd (bulk_loop pending op xs True w))"
  by (induction xs arbitrary: w) (auto simp: Let_def split: prod.splits)

lemma bulk_Nil [simp]: "bulk pending op [] w = (True, [], w)"
  by (simp add: bulk_def)

lemma bulk_Cons:
  "bulk pending op (x # xs) w =
     (if pending x
      then (case op x w of (ok, x', w1) \<Rightarrow>
              case bulk pending op xs w1 of (r, xs', w2) \<Rightarrow> (ok \<and> r, x' # xs', w2))
      else (case bulk pending op xs w of (r, xs', w2) \<Rightarrow> (r, x # xs', w2)))"
  by (auto simp: bulk_def Let_def bulk_loop_False split: prod.splits)





lemma applyAllPatches_bulk: "applyAllPatches = bulk (\<lambda>p. \<not> penabled p) applyPatch"
proof -
  have "applyAllPatches_loop xs acc w = bulk_loop (\<lambda>p. \<not> penabled p) applyPatch xs acc w"
    for xs acc w
    by (induction xs arbitrary: acc w) simp_all
  then show ?thesis by (simp add: fun_eq_iff applyAllPatches_def bulk_def)
qed

subsection \<open>The small target process, evaluated\<close>

lemma demo_attached: "isAttached (demo_world\<lparr>wfault := f\<rparr>)"
  by (simp add: isAttached_def demo_world_def STILL_ACTIVE_def)

lemma demo_resolve:
  "findPatternAddress demo_patch (demo_world\<lparr>wfault := f\<rparr>) =
     (0x140000003,
      demo_world\<lparr>wfault := f, scans := 1,
                 m_patternCache := [''Unlock 1'' \<mapsto> 0x140000003]\<rparr>)"
  by (simp add: findPatternAddress_def findPatternInModule_def getModuleInfo_def
      findPattern_def wcsicmp_eq_def towlower_def demo_world_def demo_patch_def
      CHUNK_SIZE_def ReadProcessMemory_def region_def matchPattern_def Let_def list_all_iff
      findPattern_chunks.simps findPattern_scan.simps matchPattern_loop.simps)

lemma demo_apply_ok: "fst (applyPatch demo_patch (demo_world\<lparr>wfault := (\<lambda>a. False)\<rparr>))"
  by (simp add: applyPatch_def demo_attached demo_resolve writeProtectedMemory_eq)
    (simp add: demo_world_def demo_patch_def list_all_iff list_ex_iff)

lemma demo_world_wfault: "demo_world\<lparr>wfault := (\<lambda>a. False)\<rparr> = demo_world"
  by (simp add: demo_world_def)


subsection \<open>Single operations, as the bulk loops see them\<close>


lemma fst_writeByte:
  "fst (writeByte a v w) \<longleftrightarrow> isAttached w \<and> committed w (page a) \<and> \<not> wfault w a"
  by (simp add: writeByte_eq)

lemma writeBundle_loop_eq:
  "writeBundle_loop v as acc w =
     (acc \<and> (\<forall>a\<in>set as. fst (writeByte a v w)),
      w\<lparr>mem := (\<lambda>x. if x \<in> set as \<and> fst (writeByte x v w) then v else mem w x)\<rparr>)"
proof (induction as arbitrary: acc w)
  case Nil
  then show ?case by simp
next
  case (Cons a as)
  show ?case
  proof (cases "fst (writeByte a v w)")
    case False
    then have wb: "writeByte a v w = (False, w)"
      unfolding fst_writeByte by (simp add: writeByte_eq)
    have "(\<lambda>x. if x \<in> set as \<and> fst (writeByte x v w) then v else mem w x) =
          (\<lambda>x. if x \<in> set (a # as) \<and> fst (writeByte x v w) then v else mem w x)"
      using False by (auto simp: fun_eq_iff)
    then show ?thesis using False wb Cons.IH [of False w] by simp
  next
    case True
    define w1 where "w1 = w\<lparr>mem := (mem w)(a := v)\<rparr>"
    have wb: "writeByte a v w = (True, w1)"
      using True unfolding fst_writeByte by (simp add: writeByte_eq w1_def)
    have same: "fst (writeByte x v w1) = fst (writeByte x v w)" for x
      by (simp add: fst_writeByte w1_def isAttached_def)
    have "w1\<lparr>mem := (\<lambda>x. if x \<in> set as \<and> fst (writeByte x v w1) then v else mem w1 x)\<rparr> =
          w\<lparr>mem := (\<lambda>x. if x \<in> set (a # as) \<and> fst (writeByte x v w) then v else mem w x)\<rparr>"
    proof -
      have m1: "mem w1 = (mem w)(a := v)" by (simp add: w1_def)
      have "(\<lambda>x. if x \<in> set as \<and> fst (writeByte x v w1) then v else mem w1 x) =
            (\<lambda>x. if x \<in> set (a # as) \<and> fst (writeByte x v w) then v else mem w x)"
        using True by (auto simp: fun_eq_iff same m1)
      then show ?thesis by (simp add: w1_def)
    qed
    then show ?thesis using True wb Cons.IH [of acc w1] by (simp add: same)
  qed
qed

lemma is_error_simps [simp]:
  "is_error (errorOccurred msg)" "\<not> is_error (patchApplied n)" "\<not> is_error (patchRemoved n)"
  "\<not> is_error (unlockEnabled n)" "\<not> is_error (unlockDisabled n)"
  "\<not> is_error (bundleEnabled n)" "\<not> is_error (bundleDisabled n)"
  by (simp_all add: is_error_def)












subsection \<open>A list whose first patch fails\<close>

lemma absent_resolve:
  "findPatternAddress absent_patch demo_world = (0, demo_world\<lparr>scans := Suc 0\<rparr>)"
  by (simp add: findPatternAddress_def findPatternInModule_def getModuleInfo_def
      findPattern_def wcsicmp_eq_def towlower_def demo_world_def absent_patch_def
      CHUNK_SIZE_def ReadProcessMemory_def region_def matchPattern_def Let_def list_all_iff
      findPattern_chunks.simps findPattern_scan.simps matchPattern_loop.simps)

lemma absent_apply:
  "applyPatch absent_patch demo_world =
     (False, absent_patch,
      report_error (''Pattern not found: '' @ pname absent_patch)
        (demo_world\<lparr>scans := Suc 0\<rparr>))"
  using demo_attached [of "\<lambda>a. False"]
  by (simp add: applyPatch_def absent_resolve demo_world_wfault)

lemma after_absent:
  "report_error msg (demo_world\<lparr>scans := Suc 0\<rparr>) =
     demo_world\<lparr>wfault := (\<lambda>a. False), scans := Suc 0, m_lastError := msg,
                signals := [errorOccurred msg]\<rparr>"
  by (simp add: report_error_def emit_def demo_world_def)

lemma demo_resolve_after:
  "findPatternAddress demo_patch
     (demo_world\<lparr>wfault := f, scans := n, m_lastError := msg, signals := evs\<rparr>) =
     (0x140000003,
      demo_world\<lparr>wfault := f, scans := Suc n, m_lastError := msg, signals := evs,
                 m_patternCache := [''Unlock 1'' \<mapsto> 0x140000003]\<rparr>)"
  by (simp add: findPatternAddress_def findPatternInModule_def getModuleInfo_def
      findPattern_def wcsicmp_eq_def towlower_def demo_world_def demo_patch_def
      CHUNK_SIZE_def ReadProcessMemory_def region_def matchPattern_def Let_def list_all_iff
      findPattern_chunks.simps findPattern_scan.simps matchPattern_loop.simps)

lemma demo_apply_after:
  "fst (applyPatch demo_patch (report_error msg (demo_world\<lparr>scans := Suc 0\<rparr>)))"
  "fst (snd (applyPatch demo_patch (report_error msg (demo_world\<lparr>scans := Suc 0\<rparr>)))) =
     demo_patch\<lparr>penabled := True\<rparr>"
  "mem (snd (snd (applyPatch demo_patch (report_error msg (demo_world\<lparr>scans := Suc 0\<rparr>)))))
     0x140000003 = 0x90"
proof -
  define w where "w = demo_world\<lparr>wfault := (\<lambda>a. False), scans := Suc 0, m_lastError := msg,
                signals := [errorOccurred msg]\<rparr>"
  define w1 where "w1 = demo_world\<lparr>wfault := (\<lambda>a. False), scans := Suc (Suc 0),
                 m_lastError := msg, signals := [errorOccurred msg],
                 m_patternCache := [''Unlock 1'' \<mapsto> 0x140000003]\<rparr>"
  have w: "report_error msg (demo_world\<lparr>scans := Suc 0\<rparr>) = w"
    unfolding w_def by (rule after_absent)
  have att: "isAttached w"
    by (simp add: w_def isAttached_def demo_world_def STILL_ACTIVE_def)
  have res: "findPatternAddress demo_patch w = (0x140000003, w1)"
    unfolding w_def w1_def by (rule demo_resolve_after)
  have os: "m_processHandle w1 \<noteq> 0" "committed w1 = (\<lambda>p. True)" "wfault w1 = (\<lambda>a. False)"
    by (simp_all add: w1_def demo_world_def)
  have wr: "writeProtectedMemory (0x140000003 + offset demo_patch) (patched demo_patch) w1 =
     (True, w1\<lparr>mem := (\<lambda>x. if unat (x - (0x140000003 + offset demo_patch))
                                < length (patched demo_patch)
                           then patched demo_patch ! unat (x - (0x140000003 + offset demo_patch))
                           else mem w1 x),
              prot := restored (0x140000003 + offset demo_patch)
                        (length (patched demo_patch)) w1\<rparr>)"
    using os by (simp add: writeProtectedMemory_eq list_all_iff list_ex_iff)
      (simp add: demo_patch_def)
  have ap: "applyPatch demo_patch w =
    (True, demo_patch\<lparr>penabled := True\<rparr>,
     emit (patchApplied (pname demo_patch))
       (w1\<lparr>mem := (\<lambda>x. if unat (x - (0x140000003 + offset demo_patch))
                                < length (patched demo_patch)
                           then patched demo_patch ! unat (x - (0x140000003 + offset demo_patch))
                           else mem w1 x),
              prot := restored (0x140000003 + offset demo_patch)
                        (length (patched demo_patch)) w1\<rparr>))"
    by (simp add: applyPatch_def att res wr)
  show "fst (applyPatch demo_patch (report_error msg (demo_world\<lparr>scans := Suc 0\<rparr>)))"
    unfolding w ap by simp
  show "fst (snd (applyPatch demo_patch (report_error msg (demo_world\<lparr>scans := Suc 0\<rparr>)))) =
     demo_patch\<lparr>penabled := True\<rparr>"
    unfolding w ap by simp
  show "mem (snd (snd (applyPatch demo_patch (report_error msg (demo_world\<lparr>scans := Suc 0\<rparr>)))))
     0x140000003 = 0x90"
    unfolding w ap by (simp add: demo_patch_def)
qed

section \<open>Patches: round trip and failure handling\<close>

text \<open>
  C1. Let the original and the patched bytes of a patch have the same length (a
  \<open>std::vector\<close> holds fewer than \<open>2^64\<close> bytes). When \<open>applyPatch\<close> succeeds, the
  patch was resolved to a non-zero address \<open>a\<close> that is now in the name cache, the
  bytes at \<open>a + offset\<close> are the patched bytes, and a following \<open>removePatch\<close>
  succeeds on the cached address and leaves exactly the original bytes at that site.
\<close>

theorem apply_remove_roundtrip:
  assumes len: "length (original p) = length (patched p)"
    and sz: "length (patched p) < 2 ^ 64"
    and ap: "applyPatch p w = (True, p1, w1)"
  shows "\<exists>a w2. a \<noteq> 0 \<and> fst (findPatternAddress p w) = a \<and>
           m_patternCache w1 (pname p) = Some a \<and>
           (\<forall>j<length (patched p). mem w1 (a + offset p + of_nat j) = patched p ! j) \<and>
           removePatch p1 w1 = (True, p\<lparr>penabled := False\<rparr>, w2) \<and>
           (\<forall>j<length (original p). mem w2 (a + offset p + of_nat j) = original p ! j)"
  using ap
proof (cases p w rule: applyPatch_cases)
  case (applied a w0 v)
  let ?site = "a + offset p"
  let ?n = "length (patched p)"
  have p1: "p1 = p\<lparr>penabled := True\<rparr>" and w1: "w1 = emit (patchApplied (pname p)) v"
    using applied(5) ap by simp_all
  note s = writeProtectedMemory_success [OF applied(4)]
  have v: "v = w0\<lparr>mem := (\<lambda>x. if unat (x - ?site) < ?n then patched p ! unat (x - ?site)
                           else mem w0 x), prot := restored ?site ?n w0\<rparr>"
    by (rule s(5))
  have cache0: "m_patternCache w0 (pname p) = Some a"
    using findPatternAddress_cached [OF applied(2,3)] .
  have cache1: "m_patternCache w1 (pname p) = Some a"
    using cache0 by (simp add: w1 v)
  have "isAttached w1 = isAttached w"
    by (rule isAttached_frame) (simp_all add: w1 v findPatternAddress_frame [OF applied(2)])
  then have att1: "isAttached w1"
    using applied(1) by simp
  have mem1: "\<forall>j<?n. mem w1 (?site + of_nat j) = patched p ! j"
    using written_bytes [OF _ sz] by (simp add: w1 v)
  have h1: "m_processHandle w1 \<noteq> 0" "original p \<noteq> []"
    "list_all (committed w1) (pages_of ?site (length (original p)))"
    "\<not> list_ex (wfault w1) (region ?site (length (original p)))"
    using s(1-4) len by (auto simp: w1 v)
  define w2 where "w2 = emit (patchRemoved (pname p))
     (w1\<lparr>mem := (\<lambda>x. if unat (x - ?site) < length (original p)
                        then original p ! unat (x - ?site) else mem w1 x),
         prot := restored ?site (length (original p)) w1\<rparr>)"
  have rm: "removePatch p1 w1 = (True, p\<lparr>penabled := False\<rparr>, w2)"
    using att1 cache1 applied(3) h1
    by (simp add: removePatch_def p1 writeProtectedMemory_eq w2_def)
  have mem2: "\<forall>j<length (original p). mem w2 (?site + of_nat j) = original p ! j"
    using written_bytes [of _ "original p"] sz len by (simp add: w2_def)
  show ?thesis
    using applied(2,3) cache1 mem1 rm mem2 by auto
qed (use ap in simp_all)

theorem apply_remove_roundtrip_witness:
  "length (original demo_patch) = length (patched demo_patch) \<and>
   length (patched demo_patch) < 2 ^ 64 \<and>
   fst (applyPatch demo_patch demo_world) \<and>
   (\<exists>a w2. a \<noteq> 0 \<and>
      removePatch (fst (snd (applyPatch demo_patch demo_world)))
        (snd (snd (applyPatch demo_patch demo_world))) =
          (True, demo_patch\<lparr>penabled := False\<rparr>, w2) \<and>
      (\<forall>j<length (original demo_patch).
          mem w2 (a + offset demo_patch + of_nat j) = original demo_patch ! j))"
proof -
  have len: "length (original demo_patch) = length (patched demo_patch)"
    and sz: "length (patched demo_patch) < 2 ^ 64"
    by (simp_all add: demo_patch_def)
  have ok: "fst (applyPatch demo_patch demo_world)"
    using demo_apply_ok by (simp add: demo_world_wfault)
  then have ap: "applyPatch demo_patch demo_world =
      (True, fst (snd (applyPatch demo_patch demo_world)),
       snd (snd (applyPatch demo_patch demo_world)))"
    by (simp add: prod_eq_iff)
  from apply_remove_roundtrip [OF len sz ap] len sz ok show ?thesis by blast
qed



section \<open>The scanner finds the first occurrence\<close>

text \<open>
  C4. Let the handle be valid, the signature non-empty and every byte of the range
  readable; the range is small enough for the \<open>size_t\<close> arithmetic of the loop not to
  wrap. Then \<open>findPattern\<close> returns the address of the lowest offset at which the
  signature occurs in the range, wherever that offset lies relative to the 64 KiB chunk
  boundaries, and returns nothing when the signature occurs nowhere in the range.
\<close>

theorem findPattern_first_occurrence:
  assumes "h \<noteq> 0" "pat \<noteq> []"
    "\<forall>j < searchSize. readable w (startAddress + of_nat j)"
    "searchSize + CHUNK_SIZE + length pat \<le> 2 ^ 64"
  shows "(occurs_at w startAddress searchSize pat k \<and>
          (\<forall>k'<k. \<not> occurs_at w startAddress searchSize pat k') \<longrightarrow>
            findPattern h startAddress searchSize pat w = Some (startAddress + of_nat k)) \<and>
         ((\<forall>k. \<not> occurs_at w startAddress searchSize pat k) \<longrightarrow>
            findPattern h startAddress searchSize pat w = None)"
proof -
  have eq: "findPattern h startAddress searchSize pat w =
           (if \<exists>k. occurs_at w startAddress searchSize pat k
            then Some (startAddress + of_nat (LEAST k. occurs_at w startAddress searchSize pat k))
            else None)"
    using assms(1,2) findPattern_chunks_least [OF assms(1,2,3), of 0]
    by (simp add: findPattern_def)
  have "(LEAST k. occurs_at w startAddress searchSize pat k) = k"
    if "occurs_at w startAddress searchSize pat k"
      "\<forall>k'<k. \<not> occurs_at w startAddress searchSize pat k'"
  proof (rule Least_equality)
    show "occurs_at w startAddress searchSize pat k" by (rule that(1))
    show "k \<le> y" if "occurs_at w startAddress searchSize pat y" for y
    proof (rule ccontr)
      assume "\<not> k \<le> y"
      then have "y < k" by arith
      then show False
        using that \<open>\<forall>k'<k. \<not> occurs_at w startAddress searchSize pat k'\<close> by blast
    qed
  qed
  then show ?thesis using eq by auto
qed

theorem findPattern_first_occurrence_witness:
  "findPattern 0x1A4 0x140000000 8 [0x74, 0x4F] demo_world = Some 0x140000003 \<and>
   findPattern 0x1A4 0x140000000 8 [0xAA, 0xBB] demo_world = None \<and>
   findPattern 0x1A4 0x140000000 0x20000 [0x74, 0x4F] chunk_world = Some 0x14000FFFF"
proof -
  have h: "(0x1A4 :: HANDLE) \<noteq> 0" by simp
  have rd: "\<forall>j < (8::nat). readable demo_world (0x140000000 + of_nat j)"
    by (simp add: demo_world_def)
  have sz: "(8::nat) + CHUNK_SIZE + length [0x74, 0x4F :: byte] \<le> 2 ^ 64"
    "(8::nat) + CHUNK_SIZE + length [0xAA, 0xBB :: byte] \<le> 2 ^ 64"
    by (simp_all add: CHUNK_SIZE_def)
  have three: "k' = 0 \<or> k' = 1 \<or> k' = 2" if "k' < 3" for k' :: nat
    using that by arith
  have at3: "occurs_at demo_world 0x140000000 8 [0x74, 0x4F] 3"
    by (simp add: occurs_at_iff demo_world_def nth_Cons' less_Suc_eq numeral_2_eq_2)
  have before3: "\<forall>k'<3. \<not> occurs_at demo_world 0x140000000 8 [0x74, 0x4F] k'"
  proof (intro allI impI)
    fix k' :: nat assume "k' < 3"
    then have "k' = 0 \<or> k' = 1 \<or> k' = 2" by (rule three)
    then have "mem demo_world (0x140000000 + of_nat k') \<noteq> 0x74"
      by (auto simp: demo_world_def)
    then show "\<not> occurs_at demo_world 0x140000000 8 [0x74, 0x4F] k'"
      by (auto simp: occurs_at_iff)
  qed
  have absent: "\<forall>k. \<not> occurs_at demo_world 0x140000000 8 [0xAA, 0xBB] k"
  proof
    fix k
    have "mem demo_world x \<noteq> 0xAA" for x by (simp add: demo_world_def)
    then show "\<not> occurs_at demo_world 0x140000000 8 [0xAA, 0xBB] k"
      by (auto simp: occurs_at_iff)
  qed
  have rd2: "\<forall>j < (0x20000::nat). readable chunk_world (0x140000000 + of_nat j)"
    by (simp add: chunk_world_def demo_world_def)
  have sz2: "(0x20000::nat) + CHUNK_SIZE + length [0x74, 0x4F :: byte] \<le> 2 ^ 64"
    by (simp add: CHUNK_SIZE_def)
  have at: "occurs_at chunk_world 0x140000000 0x20000 [0x74, 0x4F] 65535"
    by (simp add: occurs_at_iff chunk_world_def nth_Cons' less_Suc_eq numeral_2_eq_2)
  have before: "\<forall>k'<65535. \<not> occurs_at chunk_world 0x140000000 0x20000 [0x74, 0x4F] k'"
  proof (intro allI impI)
    fix k' :: nat assume k: "k' < 65535"
    have "(0x140000000 :: addr) + of_nat k' \<noteq> 0x14000FFFF"
    proof
      assume "(0x140000000 :: addr) + of_nat k' = 0x14000FFFF"
      then have "(of_nat k' :: addr) = 0x14000FFFF - 0x140000000"
        by (metis add_diff_cancel_left')
      then have "unat (of_nat k' :: addr) = unat (65535 :: addr)" by simp
      moreover have "unat (of_nat k' :: addr) = k'" using k by (simp add: unat_of_nat)
      ultimately show False using k by simp
    qed
    then have "mem chunk_world (0x140000000 + of_nat k') \<noteq> 0x74"
      by (simp add: chunk_world_def)
    then show "\<not> occurs_at chunk_world 0x140000000 0x20000 [0x74, 0x4F] k'"
      by (auto simp: occurs_at_iff)
  qed
  from findPattern_first_occurrence [OF h _ rd sz(1), of 3] at3 before3
  have "findPattern 0x1A4 0x140000000 8 [0x74, 0x4F] demo_world = Some 0x140000003"
    by simp
  moreover from findPattern_first_occurrence [OF h _ rd sz(2), of 0] absent
  have "findPattern 0x1A4 0x140000000 8 [0xAA, 0xBB] demo_world = None"
    by simp
  moreover from findPattern_first_occurrence [OF h _ rd2 sz2, of 65535] at before
  have "findPattern 0x1A4 0x140000000 0x20000 [0x74, 0x4F] chunk_world = Some 0x14000FFFF"
    by simp
  ultimately show ?thesis by simp
qed

section \<open>Sessions and the address cache\<close>



text \<open>
  C10. \<open>attachToProcess\<close> on an engine that holds a handle detaches first: the
  \<open>processDetached\<close> signal directly follows the signals emitted before the call, and
  the cache is empty afterwards. When the attach then fails, because the process is not
  found or cannot be opened, the engine is left without a handle and \<open>isAttached\<close> is
  false, although it was attached before the call.
\<close>

theorem attach_detaches_first:
  "m_processHandle w \<noteq> 0 \<Longrightarrow>
   (case attachToProcess nm w of (ok, w') \<Rightarrow>
      take (Suc (length (signals w))) (signals w') = signals w @ [processDetached] \<and>
      m_patternCache w' = Map.empty \<and>
      (\<not> ok \<longrightarrow> m_processHandle w' = 0 \<and> \<not> isAttached w'))"
proof -
  assume h: "m_processHandle w \<noteq> 0"
  define w1 where "w1 = detach w"
  obtain pid w2 where f: "findProcessByName nm w1 = (pid, w2)"
    by (cases "findProcessByName nm w1")
  have w1: "m_processHandle w1 = 0" "m_patternCache w1 = Map.empty"
    "signals w1 = signals w @ [processDetached]"
    using h by (simp_all add: w1_def detach_attached)
  obtain evs where w2: "m_processHandle w2 = 0" "m_patternCache w2 = Map.empty"
    "signals w2 = signals w @ [processDetached] @ evs"
    using findProcessByName_frame [OF f] w1 by auto
  have unfold: "attachToProcess nm w =
     (if pid = 0
         then (False, w2\<lparr>m_lastError := ''Process not found: '' @ nm\<rparr>)
         else let w3 = w2\<lparr>m_processHandle := open_process w2 pid\<rparr>
              in if m_processHandle w3 = 0
                 then (False,
                       report_error
                         (''Failed to open process. Run as administrator? Error: ''
                            @ last_error w3) w3)
                 else (True,
                       emit (processAttached nm pid)
                         (w3\<lparr>m_processId := pid, m_processName := nm,
                             m_patternCache := Map.empty\<rparr>)))"
    using h f by (simp add: attachToProcess_def w1_def)
  show ?thesis
    unfolding unfold using w2 by (simp add: Let_def isAttached_def)
qed

theorem attach_detaches_first_witness:
  "isAttached demo_world \<and>
   (case attachToProcess ''notepad.exe'' demo_world of (ok, w') \<Rightarrow>
      \<not> ok \<and> m_processHandle w' = 0 \<and> \<not> isAttached w' \<and>
      take 1 (signals w') = [processDetached])"
proof -
  have h: "m_processHandle demo_world \<noteq> 0" by (simp add: demo_world_def)
  have a: "isAttached demo_world"
    using demo_attached [of "\<lambda>a. False"] by (simp add: demo_world_wfault)
  have f: "\<not> fst (attachToProcess ''notepad.exe'' demo_world)"
    by (simp add: attachToProcess_def detach_def findProcessByName_def wcsicmp_eq_def
        towlower_def demo_world_def emit_def Let_def)
  have s: "signals demo_world = []" by (simp add: demo_world_def)
  show ?thesis
    using attach_detaches_first [OF h, of "''notepad.exe''"] a f s
    by (auto split: prod.splits)
qed

section \<open>Items that cannot be selected individually\<close>




section \<open>Bulk operations are best effort\<close>



section \<open>Bundles are not rolled back\<close>

text \<open>
  C5. \<open>enableBundle\<close> succeeds exactly when the engine is attached and the write of 1
  succeeds at every address of the bundle. Whatever the outcome, every address of the
  bundle at which the write can succeed holds 1 afterwards and every other byte of
  memory is unchanged: each write is attempted and none is undone. The bundle is marked
  enabled when all writes succeeded; otherwise it is returned unchanged and the error is
  reported. \<open>disableBundle\<close> is the same with 0 and \<open>enabled = false\<close>.
\<close>

theorem bundle_not_rolled_back:
  "(case enableBundle b w of (ok, b', w') \<Rightarrow>
      (ok \<longleftrightarrow> isAttached w \<and> list_all (\<lambda>a. fst (writeByte a 0x01 w)) (addresses b)) \<and>
      b' = (if ok then b\<lparr>benabled := True\<rparr> else b) \<and>
      (\<not> ok \<longrightarrow> signals w' = signals w @ [errorOccurred (m_lastError w')]) \<and>
      (\<forall>x. mem w' x =
         (if x \<in> set (addresses b) \<and> fst (writeByte x 0x01 w) then 0x01 else mem w x))) \<and>
   (case disableBundle b w of (ok, b', w') \<Rightarrow>
      (ok \<longleftrightarrow> isAttached w \<and> list_all (\<lambda>a. fst (writeByte a 0x00 w)) (addresses b)) \<and>
      b' = (if ok then b\<lparr>benabled := False\<rparr> else b) \<and>
      (\<not> ok \<longrightarrow> signals w' = signals w @ [errorOccurred (m_lastError w')]) \<and>
      (\<forall>x. mem w' x =
         (if x \<in> set (addresses b) \<and> fst (writeByte x 0x00 w) then 0x00 else mem w x)))"
proof -
  have na: "\<not> isAttached w \<Longrightarrow> \<not> fst (writeByte x v w)" for x v
    by (simp add: fst_writeByte)
  show ?thesis
    by (auto simp: enableBundle_def disableBundle_def writeBundle_loop_eq list_all_iff na)
qed

theorem bundle_not_rolled_back_witness:
  "(case enableBundle demo_bundle bundle_world of (ok, b', w') \<Rightarrow>
      \<not> ok \<and> \<not> benabled b' \<and>
      mem w' 0x140752040 = 1 \<and> mem w' 0x140752041 = 0 \<and> mem w' 0x140752042 = 1)"
proof -
  have att: "isAttached bundle_world"
    unfolding bundle_world_def by (rule demo_attached)
  have os: "committed bundle_world p" "wfault bundle_world x \<longleftrightarrow> x = 0x140752041" for p x
    by (simp_all add: bundle_world_def demo_world_def)
  have wb: "fst (writeByte x 0x01 bundle_world) \<longleftrightarrow> x \<noteq> 0x140752041" for x
    by (simp add: fst_writeByte att os)
  have m: "mem bundle_world 0x140752041 = 0"
    by (simp add: bundle_world_def demo_world_def)
  obtain ok b' w' where run: "enableBundle demo_bundle bundle_world = (ok, b', w')"
    by (cases "enableBundle demo_bundle bundle_world")
  have all: "(ok \<longleftrightarrow> isAttached bundle_world \<and>
        list_all (\<lambda>a. fst (writeByte a 0x01 bundle_world)) (addresses demo_bundle)) \<and>
      b' = (if ok then demo_bundle\<lparr>benabled := True\<rparr> else demo_bundle) \<and>
      (\<not> ok \<longrightarrow> signals w' = signals bundle_world @ [errorOccurred (m_lastError w')]) \<and>
      (\<forall>x. mem w' x =
         (if x \<in> set (addresses demo_bundle) \<and> fst (writeByte x 0x01 bundle_world)
          then 0x01 else mem bundle_world x))"
    by (rule bundle_not_rolled_back [where b = demo_bundle and w = bundle_world,
          unfolded run prod.case, THEN conjunct1])
  have nok: "\<not> ok"
    using all [THEN conjunct1] by (simp add: wb demo_bundle_def)
  then have b: "b' = demo_bundle"
    using all [THEN conjunct2, THEN conjunct1] by simp
  have mm: "mem w' x =
         (if x \<in> set (addresses demo_bundle) \<and> fst (writeByte x 0x01 bundle_world)
          then 0x01 else mem bundle_world x)" for x
    using all [THEN conjunct2, THEN conjunct2, THEN conjunct2] by blast
  have "mem w' 0x140752040 = 1" "mem w' 0x140752041 = 0" "mem w' 0x140752042 = 1"
    by (simp_all add: mm wb m) (simp_all add: demo_bundle_def)
  then show ?thesis
    unfolding run using nok b by (simp add: demo_bundle_def)
qed

section \<open>Bulk apply does not stop at a failure\<close>

text \<open>
  C7, as the code has it. \<open>applyAllPatches\<close> takes the patches in list order and
  never stops: a patch that is already enabled is skipped, any other is applied, and in
  either case the rest of the list is processed in the state then reached, whether or
  not the patch failed; the result is the conjunction of the single results.
\<close>

theorem applyAllPatches_continues:
  "applyAllPatches [] w = (True, [], w) \<and>
   applyAllPatches (p # rest) w =
     (if penabled p
      then (case applyAllPatches rest w of (r, rest', w2) \<Rightarrow> (r, p # rest', w2))
      else (case applyPatch p w of (ok, p', w1) \<Rightarrow>
              case applyAllPatches rest w1 of (r, rest', w2) \<Rightarrow> (ok \<and> r, p' # rest', w2)))"
  by (simp add: applyAllPatches_bulk bulk_Cons)

theorem applyAllPatches_continues_witness:
  "\<not> penabled absent_patch \<and> \<not> fst (applyPatch absent_patch demo_world) \<and>
   applyAllPatches [absent_patch, demo_patch] demo_world =
     (False, absent_patch #
        fst (snd (applyAllPatches [demo_patch] (snd (snd (applyPatch absent_patch demo_world))))),
      snd (snd (applyAllPatches [demo_patch] (snd (snd (applyPatch absent_patch demo_world))))))"
proof -
  have n: "\<not> penabled absent_patch" by (simp add: absent_patch_def)
  have f: "\<not> fst (applyPatch absent_patch demo_world)" by (simp add: absent_apply)
  show ?thesis
    using applyAllPatches_continues [of demo_world absent_patch "[demo_patch]"] n f
    by (simp add: absent_apply split: prod.splits)
qed

text \<open>
  The claim as stated fails: the first patch of the list cannot be applied (its
  signature is absent), and the patch after it is applied all the same.
\<close>

theorem applyAllPatches_goes_on_after_failure:
  "\<not> fst (applyPatch absent_patch demo_world) \<and>
   \<not> fst (applyAllPatches [absent_patch, demo_patch] demo_world) \<and>
   map penabled (fst (snd (applyAllPatches [absent_patch, demo_patch] demo_world))) =
     [False, True] \<and>
   mem demo_world 0x140000003 = 0x74 \<and>
   mem (snd (snd (applyAllPatches [absent_patch, demo_patch] demo_world))) 0x140000003 = 0x90"
proof -
  have d: "\<not> penabled demo_patch" "\<not> penabled absent_patch"
    by (simp_all add: demo_patch_def absent_patch_def)
  have m: "mem demo_world 0x140000003 = 0x74" by (simp add: demo_world_def)
  define w1 where "w1 = snd (snd (applyPatch absent_patch demo_world))"
  have a: "applyPatch absent_patch demo_world = (False, absent_patch, w1)"
    by (simp add: w1_def absent_apply)
  have w1: "report_error (''Pattern not found: '' @ pname absent_patch)
        (demo_world\<lparr>scans := Suc 0\<rparr>) = w1"
    by (simp add: w1_def absent_apply)
  obtain ok p' w' where ap: "applyPatch demo_patch w1 = (ok, p', w')"
    by (cases "applyPatch demo_patch w1")
  have r: "ok" "p' = demo_patch\<lparr>penabled := True\<rparr>" "mem w' 0x140000003 = 0x90"
    using demo_apply_after [of "''Pattern not found: '' @ pname absent_patch"]
    unfolding w1 ap by simp_all
  have run: "applyAllPatches [absent_patch, demo_patch] demo_world =
      (False, [absent_patch, p'], w')"
    using d by (simp add: applyAllPatches_bulk bulk_Cons a ap)
  show ?thesis
    unfolding run using m r a by (simp add: absent_patch_def)
qed

section \<open>Page protection around a write\<close>



end
